theory Spec2Isabelle
  imports Complex_Main "HOL-Library.Word"
begin

section \<open>Python values and errors\<close>

text \<open>
  The program is \<^verbatim>\<open>disk_throughput_win.py\<close>. Python integers are unbounded and are
  modelled by \<open>int\<close>; \<open>//\<close> and \<open>%\<close> round towards minus infinity, as \<open>div\<close> and
  \<open>mod\<close> on \<open>int\<close> do, but raise \<^verbatim>\<open>ZeroDivisionError\<close> on a zero divisor, which is
  written out. Every \<^verbatim>\<open>raise\<close> of the source is a constructor of \<open>py_error\<close>.
\<close>

text \<open>
  \<open>SystemExit requested free_bytes\<close> is the exit of line 253, whose message names both
  numbers. \<open>ValueError\<close> and \<open>StatisticsError\<close> are what \<^verbatim>\<open>min\<close>, \<^verbatim>\<open>max\<close> and
  \<^verbatim>\<open>statistics.fmean\<close> raise on an empty sequence. \<open>OSError_setup\<close> stands for every
  exception raised before the loop of a test function (opening the file, sizing it,
  allocating the buffer), \<open>OSError_seek\<close> for the one of \<^verbatim>\<open>set_pointer\<close>, and
  \<open>OSError_transfer d n e\<close> for the one of lines 167 and 196, whose message holds the
  name of the call (\<open>d\<close>), the value \<open>n\<close> of \<^verbatim>\<open>dw_written\<close> or \<^verbatim>\<open>dw_read\<close> and the
  text of the system's last error \<open>e\<close>, and nothing else.
\<close>

datatype direction = Write | Read

datatype py_error =
    ZeroDivisionError
  | SystemExit int int
  | ValueError
  | StatisticsError
  | OSError_setup
  | OSError_seek
  | OSError_transfer direction int int

definition bind_r :: "py_error + 'a \<Rightarrow> ('a \<Rightarrow> py_error + 'b) \<Rightarrow> py_error + 'b" where
  "bind_r r f = (case r of Inl e \<Rightarrow> Inl e | Inr v \<Rightarrow> f v)"

definition py_mod :: "int \<Rightarrow> int \<Rightarrow> py_error + int" where
  "py_mod x m = (if m = 0 then Inl ZeroDivisionError else Inr (x mod m))"

text \<open>\<^verbatim>\<open>def align_down(x, multiple): return (x // multiple) * multiple\<close>\<close>

definition align_down :: "int \<Rightarrow> int \<Rightarrow> py_error + int" where
  "align_down x multiple =
     (if multiple = 0 then Inl ZeroDivisionError else Inr ((x div multiple) * multiple))"

text \<open>\<^verbatim>\<open>def align_up(x, multiple): return ((x + multiple - 1) // multiple) * multiple\<close>\<close>

definition align_up :: "int \<Rightarrow> int \<Rightarrow> py_error + int" where
  "align_up x multiple =
     (if multiple = 0 then Inl ZeroDivisionError
      else Inr (((x + multiple - 1) div multiple) * multiple))"

section \<open>The product \<^verbatim>\<open>int(free_bytes * 0.8)\<close>\<close>

text \<open>
  \<^verbatim>\<open>free_bytes * 0.8\<close> converts the integer to an IEEE 754 double (round to nearest,
  ties to even), multiplies by the double nearest to 0.8, which is
  \<open>7205759403792794 / 2 ^ 53\<close>, rounding again, and \<^verbatim>\<open>int\<close> truncates. For a
  non-negative integer below \<open>2 ^ 64\<close> neither step leaves the normal range, so both
  roundings are roundings of a natural number to 53 significant bits.
\<close>

fun bit_length :: "nat \<Rightarrow> nat" where
  "bit_length n = (if n = 0 then 0 else Suc (bit_length (n div 2)))"

declare bit_length.simps [simp del]

definition round_half_even :: "nat \<Rightarrow> nat \<Rightarrow> nat" where
  "round_half_even n k =
     (let q = n div 2 ^ k; r = n mod 2 ^ k
      in if 2 ^ k < 2 * r \<or> (2 * r = 2 ^ k \<and> odd q) then (q + 1) * 2 ^ k else q * 2 ^ k)"

definition round53 :: "nat \<Rightarrow> nat" where
  "round53 n = (if bit_length n \<le> 53 then n else round_half_even n (bit_length n - 53))"

definition float_of_nat :: "nat \<Rightarrow> nat" where
  "float_of_nat n = round53 n"

definition mul_0_8_trunc :: "nat \<Rightarrow> nat" where
  "mul_0_8_trunc x = round53 (x * 7205759403792794) div 2 ^ 53"

definition int_times_0_8 :: "int \<Rightarrow> int" where
  "int_times_0_8 free_bytes = int (mul_0_8_trunc (float_of_nat (nat free_bytes)))"

section \<open>The sizing planner (\<^verbatim>\<open>main\<close>, lines 244 to 269)\<close>

text \<open>
  The sizing is a run of statements of \<^verbatim>\<open>main\<close>; it is cut here into the stages the
  statements form, each under the lines it stands for. The plan is the pair of
  \<^verbatim>\<open>file_size\<close> and \<^verbatim>\<open>block_size\<close> after line 269.
\<close>

record test_plan =
  plan_file_size :: int
  plan_block_size :: int

text \<open>Line 249: the ceiling, sector-aligned 80 per cent of the free space under autofit.\<close>

definition max_bytes_of :: "int \<Rightarrow> bool \<Rightarrow> int \<Rightarrow> int \<Rightarrow> py_error + int" where
  "max_bytes_of requested no_autofit free_bytes sector_size =
     (if \<not> no_autofit then align_down (int_times_0_8 free_bytes) sector_size
      else Inr requested)"

text \<open>Lines 255 to 257: the request, or the ceiling when autofit replaces it.\<close>

definition fit_file_size :: "int \<Rightarrow> bool \<Rightarrow> int \<Rightarrow> int" where
  "fit_file_size requested no_autofit max_bytes =
     (if \<not> no_autofit \<and> (requested = 0 \<or> requested > max_bytes) then max_bytes
      else requested)"

text \<open>Lines 262 to 266: the block size, rounded up to the sector and cut to the file.\<close>

definition fit_block_size :: "int \<Rightarrow> int \<Rightarrow> int \<Rightarrow> py_error + int" where
  "fit_block_size block_kb sector_size file_size =
     (let block_size = block_kb * 1024 in
      bind_r (py_mod block_size sector_size) (\<lambda>rem.
      bind_r (if rem \<noteq> 0 then align_up block_size sector_size else Inr block_size)
        (\<lambda>block_size.
      Inr (if block_size > file_size then file_size else block_size))))"

text \<open>Lines 267 to 269: a whole number of blocks, and never no block at all.\<close>

definition whole_blocks :: "int \<Rightarrow> int \<Rightarrow> py_error + int" where
  "whole_blocks file_size block_size =
     bind_r (align_down file_size block_size) (\<lambda>file_size.
     Inr (if file_size = 0 then block_size else file_size))"

text \<open>
  The whole computation. \<^verbatim>\<open>sector_size\<close> is the value of a \<^verbatim>\<open>DWORD\<close> and
  \<^verbatim>\<open>free_bytes\<close> the value of a \<^verbatim>\<open>c_ulonglong\<close>; \<^verbatim>\<open>requested\<close> and
  \<^verbatim>\<open>block_kb\<close> are integers parsed from the command line. The ceiling is computed
  (and, with a sector size of zero, raises) before the free space is checked.
\<close>

definition sizing :: "int \<Rightarrow> bool \<Rightarrow> 64 word \<Rightarrow> 32 word \<Rightarrow> int \<Rightarrow> py_error + test_plan" where
  "sizing requested no_autofit free_w sector_w block_kb =
     (let sector_size = uint sector_w; free_bytes = uint free_w in
      bind_r (max_bytes_of requested no_autofit free_bytes sector_size) (\<lambda>max_bytes.
      if requested > free_bytes \<and> no_autofit then Inl (SystemExit requested free_bytes)
      else
        let file_size = fit_file_size requested no_autofit max_bytes;
            file_size = (if file_size < sector_size then sector_size else file_size)
        in
        bind_r (fit_block_size block_kb sector_size file_size) (\<lambda>block_size.
        bind_r (whole_blocks file_size block_size) (\<lambda>file_size.
        Inr \<lparr>plan_file_size = file_size, plan_block_size = block_size\<rparr>))))"

section \<open>The pass loops (\<^verbatim>\<open>run_write_tests\<close>, \<^verbatim>\<open>run_read_tests\<close>)\<close>

text \<open>
  The times of the loops are Python floats, that is IEEE 754 doubles: the readings of
  the clock, their difference \<^verbatim>\<open>elapsed\<close>, the sum \<^verbatim>\<open>total_elapsed\<close> and the bound
  \<^verbatim>\<open>min_seconds\<close>, which \<^verbatim>\<open>argparse\<close> reads with \<^verbatim>\<open>float\<close> and which can be an
  infinity or not a number. A double is a real number, an infinity or \<open>NaN\<close>; the two
  zeros are one, since nothing here tells them apart.
\<close>

datatype pyfloat = Fin real | PosInf | NegInf | NaN

definition pow2 :: "int \<Rightarrow> real" where
  "pow2 e = (if 0 \<le> e then 2 ^ nat e else 1 / 2 ^ nat (- e))"

text \<open>For a positive \<open>x\<close>, the exponent \<open>k\<close> with \<open>2 ^ k \<le> x < 2 ^ (k + 1)\<close>.\<close>

definition ilog2 :: "real \<Rightarrow> int" where
  "ilog2 x =
     (if 1 \<le> x then int (bit_length (nat \<lfloor>x\<rfloor>)) - 1
      else - int (bit_length (nat (\<lceil>1 / x\<rceil> - 1))))"

definition nearest_even :: "real \<Rightarrow> int" where
  "nearest_even x =
     (let f = \<lfloor>x\<rfloor>; d = x - of_int f
      in if d < 1 / 2 then f else if 1 / 2 < d then f + 1 else if even f then f else f + 1)"

text \<open>
  The double nearest to a real number, ties to the even significand: 53 significant
  bits, no exponent below \<open>- 1074\<close>, and an infinity from \<open>2 ^ 1024\<close> on.
\<close>

definition round_double :: "real \<Rightarrow> pyfloat" where
  "round_double x =
     (if x = 0 then Fin 0
      else
        let e = max (ilog2 \<bar>x\<bar> - 52) (- 1074);
            r = of_int (nearest_even (x / pow2 e)) * pow2 e
        in if 2 ^ 1024 \<le> \<bar>r\<bar> then (if 0 < r then PosInf else NegInf) else Fin r)"

fun fadd :: "pyfloat \<Rightarrow> pyfloat \<Rightarrow> pyfloat" where
  "fadd NaN y = NaN"
| "fadd x NaN = NaN"
| "fadd (Fin a) (Fin b) = round_double (a + b)"
| "fadd PosInf NegInf = NaN"
| "fadd NegInf PosInf = NaN"
| "fadd PosInf y = PosInf"
| "fadd NegInf y = NegInf"
| "fadd (Fin a) y = y"

fun fneg :: "pyfloat \<Rightarrow> pyfloat" where
  "fneg (Fin a) = Fin (- a)"
| "fneg PosInf = NegInf"
| "fneg NegInf = PosInf"
| "fneg NaN = NaN"

definition fsub :: "pyfloat \<Rightarrow> pyfloat \<Rightarrow> pyfloat" where
  "fsub x y = fadd x (fneg y)"

text \<open>The comparisons \<^verbatim>\<open><\<close> and \<^verbatim>\<open><=\<close>: false whenever a side is \<open>NaN\<close>.\<close>

fun flt :: "pyfloat \<Rightarrow> pyfloat \<Rightarrow> bool" where
  "flt NaN y = False"
| "flt x NaN = False"
| "flt (Fin a) (Fin b) = (a < b)"
| "flt (Fin a) PosInf = True"
| "flt (Fin a) NegInf = False"
| "flt PosInf y = False"
| "flt NegInf NegInf = False"
| "flt NegInf y = True"

fun fle :: "pyfloat \<Rightarrow> pyfloat \<Rightarrow> bool" where
  "fle NaN y = False"
| "fle x NaN = False"
| "fle (Fin a) (Fin b) = (a \<le> b)"
| "fle (Fin a) PosInf = True"
| "fle (Fin a) NegInf = False"
| "fle PosInf PosInf = True"
| "fle PosInf y = False"
| "fle NegInf y = True"

text \<open>
  \<^verbatim>\<open>def throughput_mb_s(total_bytes, seconds):
      return (total_bytes / (1024 * 1024)) / seconds if seconds > 0 else 0.0\<close>

  The time is the double the loop has computed; the quotient is taken over the real
  numbers, so the rounding of the two divisions is left out. A quotient by an infinite
  time is 0.
\<close>

definition throughput_mb_s :: "int \<Rightarrow> pyfloat \<Rightarrow> real" where
  "throughput_mb_s total_bytes seconds =
     (if flt (Fin 0) seconds
      then (case seconds of
              Fin s \<Rightarrow> (real_of_int total_bytes / (1024 * 1024)) / s
            | _ \<Rightarrow> 0)
      else 0)"

text \<open>
  What the operating system answers. \<open>transfer n c\<close> is the answer to the \<open>n\<close>-th call of
  \<^verbatim>\<open>WriteFile\<close> or \<^verbatim>\<open>ReadFile\<close> of the run (counted from 0) when asked for \<open>c\<close> bytes:
  the \<^verbatim>\<open>BOOL\<close> it returns and the \<^verbatim>\<open>DWORD\<close> it leaves in \<^verbatim>\<open>dw_written\<close> or
  \<^verbatim>\<open>dw_read\<close>. The byte count is passed as a \<^verbatim>\<open>DWORD\<close> argument, which keeps the low
  32 bits of the Python integer. \<open>last_error n\<close> is what \<^verbatim>\<open>ctypes.get_last_error()\<close>
  gives after that call, \<open>seek_ok i\<close> says whether the \<^verbatim>\<open>SetFilePointerEx\<close> that
  starts pass \<open>i\<close> succeeds, \<open>perf_counter n\<close> is the \<open>n\<close>-th reading of the clock (a
  double), and
  \<open>setup_ok\<close> says whether opening the file, sizing it (writes only) and allocating
  the buffer all succeed.
\<close>

record io_env =
  setup_ok :: bool
  seek_ok :: "nat \<Rightarrow> bool"
  transfer :: "nat \<Rightarrow> 32 word \<Rightarrow> bool \<times> 32 word"
  last_error :: "nat \<Rightarrow> int"
  perf_counter :: "nat \<Rightarrow> pyfloat"

text \<open>
  The variables of the loop, together with two counters of the calls made so far:
  \<open>ticks\<close> readings of the clock, and the byte counts of the transfers \<open>issued\<close>,
  oldest first.
\<close>

record run_state =
  per_pass :: "real list"
  total_elapsed :: pyfloat
  passes_done :: int
  ticks :: nat
  issued :: "int list"

text \<open>
  Lines 166 and 195, \<^verbatim>\<open>if not ok or dw_written.value != this_io\<close>: the test made
  after each transfer.
\<close>

definition transfer_failed :: "io_env \<Rightarrow> nat \<Rightarrow> int \<Rightarrow> bool" where
  "transfer_failed env n this_io =
     (let (ok, moved) = transfer env n (word_of_int this_io)
      in \<not> ok \<or> uint moved \<noteq> this_io)"

text \<open>
  Lines 163 to 168 and 192 to 197: the transfers of one pass. The result is \<open>None\<close>
  when the loop never ends; otherwise the exception raised, if any, and the transfers
  issued.
\<close>

partial_function (option) transfer_all ::
  "direction \<Rightarrow> io_env \<Rightarrow> int \<Rightarrow> int \<Rightarrow> int list \<Rightarrow> (py_error option \<times> int list) option" where
  "transfer_all d env block_size to_go sent =
     (if to_go > 0 then
        let this_io = (if to_go \<ge> block_size then block_size else to_go);
            n = length sent
        in if transfer_failed env n this_io
           then Some (Some (OSError_transfer d (uint (snd (transfer env n (word_of_int this_io))))
                        (last_error env n)), sent @ [this_io])
           else transfer_all d env block_size (to_go - this_io) (sent @ [this_io])
      else Some (None, sent))"

text \<open>Lines 158 to 173 and 187 to 202: the passes.\<close>

partial_function (option) pass_loop ::
  "direction \<Rightarrow> io_env \<Rightarrow> int \<Rightarrow> int \<Rightarrow> int \<Rightarrow> pyfloat \<Rightarrow> run_state
     \<Rightarrow> (py_error option \<times> run_state) option" where
  "pass_loop d env file_size block_size passes min_seconds s =
     (if passes_done s < passes \<or> flt (total_elapsed s) min_seconds then
        if \<not> seek_ok env (length (per_pass s)) then Some (Some OSError_seek, s)
        else
          let start = perf_counter env (ticks s);
              s = s\<lparr>ticks := ticks s + 1\<rparr>
          in Option.bind (transfer_all d env block_size file_size (issued s))
               (\<lambda>(err, sent).
                  let s = s\<lparr>issued := sent\<rparr> in
                  case err of
                    Some e \<Rightarrow> Some (Some e, s)
                  | None \<Rightarrow>
                      let elapsed = fsub (perf_counter env (ticks s)) start;
                          s = s\<lparr>ticks := ticks s + 1\<rparr>;
                          s = s\<lparr>total_elapsed := fadd (total_elapsed s) elapsed\<rparr>;
                          s = s\<lparr>per_pass := per_pass s @ [throughput_mb_s file_size elapsed]\<rparr>;
                          s = s\<lparr>passes_done := passes_done s + 1\<rparr>
                      in pass_loop d env file_size block_size passes min_seconds s)
      else Some (None, s))"

definition initial_state :: run_state where
  "initial_state =
     \<lparr>per_pass = [], total_elapsed = Fin 0, passes_done = 0, ticks = 0, issued = []\<rparr>"

text \<open>
  The two functions differ in how the file is opened, in the sizing of the file and
  the filling of the buffer before the first write pass, and in the call that moves
  the bytes; the loops are the same text. \<open>None\<close> is a run that never returns,
  \<open>Some (Inl e)\<close> a run that raises \<open>e\<close>, \<open>Some (Inr xs)\<close> one that returns \<open>xs\<close>.
\<close>

definition run_tests ::
  "direction \<Rightarrow> io_env \<Rightarrow> int \<Rightarrow> int \<Rightarrow> int \<Rightarrow> pyfloat
     \<Rightarrow> (py_error + real list) option" where
  "run_tests d env file_size block_size passes min_seconds =
     (if \<not> setup_ok env then Some (Inl OSError_setup)
      else map_option
             (\<lambda>(err, s). case err of Some e \<Rightarrow> Inl e | None \<Rightarrow> Inr (per_pass s))
             (pass_loop d env file_size block_size passes min_seconds initial_state))"

definition run_write_tests ::
  "io_env \<Rightarrow> int \<Rightarrow> int \<Rightarrow> int \<Rightarrow> pyfloat \<Rightarrow> (py_error + real list) option" where
  "run_write_tests = run_tests Write"

definition run_read_tests ::
  "io_env \<Rightarrow> int \<Rightarrow> int \<Rightarrow> int \<Rightarrow> pyfloat \<Rightarrow> (py_error + real list) option" where
  "run_read_tests = run_tests Read"

section \<open>The summary (\<^verbatim>\<open>summarize\<close>, lines 284 to 291)\<close>

text \<open>
  \<^verbatim>\<open>min\<close> and \<^verbatim>\<open>max\<close> keep the first element and replace it by each later one that
  is smaller, or larger; on an empty list they raise \<^verbatim>\<open>ValueError\<close>.
  \<^verbatim>\<open>statistics.fmean\<close> divides the sum by the number of values and raises
  \<^verbatim>\<open>StatisticsError\<close> on an empty list. \<^verbatim>\<open>summarize\<close> prints its three results;
  the record is what it prints, before the formatting to two decimals.
\<close>

fun py_min :: "real list \<Rightarrow> py_error + real" where
  "py_min [] = Inl ValueError"
| "py_min (x # xs) = Inr (fold (\<lambda>item best. if item < best then item else best) xs x)"

fun py_max :: "real list \<Rightarrow> py_error + real" where
  "py_max [] = Inl ValueError"
| "py_max (x # xs) = Inr (fold (\<lambda>item best. if item > best then item else best) xs x)"

definition fmean :: "real list \<Rightarrow> py_error + real" where
  "fmean xs = (if xs = [] then Inl StatisticsError else Inr (sum_list xs / real (length xs)))"

record run_report =
  vmin :: real
  vavg :: real
  vmax :: real

definition summarize :: "real list \<Rightarrow> py_error + run_report" where
  "summarize values =
     bind_r (py_min values) (\<lambda>lo.
     bind_r (py_max values) (\<lambda>hi.
     bind_r (fmean values) (\<lambda>avg.
     Inr \<lparr>vmin = lo, vavg = avg, vmax = hi\<rparr>)))"

section \<open>Notions used to state the properties\<close>

text \<open>
  The time pass \<open>i\<close> takes: the difference of the two clock readings around its
  transfers. Every completed pass reads the clock exactly twice.
\<close>

definition pass_elapsed :: "io_env \<Rightarrow> nat \<Rightarrow> pyfloat" where
  "pass_elapsed env i = fsub (perf_counter env (2 * i + 1)) (perf_counter env (2 * i))"

text \<open>The value of \<^verbatim>\<open>total_elapsed\<close> after \<open>k\<close> passes, summed as the loop sums it.\<close>

fun elapsed_total :: "io_env \<Rightarrow> nat \<Rightarrow> pyfloat" where
  "elapsed_total env 0 = Fin 0"
| "elapsed_total env (Suc k) = fadd (elapsed_total env k) (pass_elapsed env k)"

text \<open>No transfer of the list was refused or cut short, the \<open>i\<close>-th being call \<open>i\<close>.\<close>

definition all_ok :: "io_env \<Rightarrow> int list \<Rightarrow> bool" where
  "all_ok env xs \<longleftrightarrow> (\<forall>i<length xs. \<not> transfer_failed env i (xs ! i))"

text \<open>What holds of the loop variables each time the loop condition is tested.\<close>

definition loop_inv :: "io_env \<Rightarrow> int \<Rightarrow> int \<Rightarrow> pyfloat \<Rightarrow> run_state \<Rightarrow> bool" where
  "loop_inv env file_size passes min_seconds s \<longleftrightarrow>
     passes_done s = int (length (per_pass s))
   \<and> total_elapsed s = elapsed_total env (length (per_pass s))
   \<and> (\<forall>i<length (per_pass s). per_pass s ! i = throughput_mb_s file_size (pass_elapsed env i))
   \<and> (\<forall>k<length (per_pass s).
        int k < passes \<or> flt (elapsed_total env k) min_seconds)"

text \<open>
  Five devices for concrete runs: one moves exactly the bytes it is asked for, with a
  clock that advances by one second per reading; one does the same with a clock that
  stands still; one moves nothing at its second transfer, and says so; one moves all
  bytes while its clock reads 0, then the doubles nearest to 0.2 and to 0.9 twice
  each, then 1; the last refuses every transfer, moves nothing and leaves error
  code 5.
\<close>

definition echo_env :: io_env where
  "echo_env = \<lparr>setup_ok = True, seek_ok = (\<lambda>i. True), transfer = (\<lambda>n c. (True, c)),
     last_error = (\<lambda>n. 0), perf_counter = (\<lambda>n. Fin (real n))\<rparr>"

definition frozen_env :: io_env where
  "frozen_env = \<lparr>setup_ok = True, seek_ok = (\<lambda>i. True), transfer = (\<lambda>n c. (True, c)),
     last_error = (\<lambda>n. 0), perf_counter = (\<lambda>n. Fin 0)\<rparr>"


definition drift_env :: io_env where
  "drift_env = \<lparr>setup_ok = True, seek_ok = (\<lambda>i. True), transfer = (\<lambda>n c. (True, c)),
     last_error = (\<lambda>n. 0),
     perf_counter = (\<lambda>n. Fin (if n = 0 then 0
        else if n \<le> 2 then 3602879701896397 / 18014398509481984
        else if n \<le> 4 then 8106479329266893 / 9007199254740992
        else 1))\<rparr>"


section \<open>Rounding to 53 bits\<close>

lemma bit_length_0: "bit_length 0 = 0"
  by (simp add: bit_length.simps)

lemma bit_length_upper: "n < 2 ^ bit_length n"
proof (induction n rule: bit_length.induct)
  case (1 n)
  show ?case
  proof (cases "n = 0")
    case True
    then show ?thesis by simp
  next
    case False
    with 1 have "n div 2 < 2 ^ bit_length (n div 2)" by simp
    then have "n < 2 * 2 ^ bit_length (n div 2)" by linarith
    with False show ?thesis by (subst bit_length.simps) simp
  qed
qed

lemma bit_length_lower: "0 < n \<Longrightarrow> 2 ^ (bit_length n - 1) \<le> n"
proof (induction n rule: bit_length.induct)
  case (1 n)
  show ?case
  proof (cases "n div 2 = 0")
    case True
    with 1 have "bit_length n = 1" 
      by (subst bit_length.simps) (simp add: bit_length_0)
    with 1 show ?thesis by simp
  next
    case False
    with 1 have ih: "2 ^ (bit_length (n div 2) - 1) \<le> n div 2" by simp
    from False have "0 < bit_length (n div 2)" by (subst bit_length.simps) simp
    then have "(2::nat) ^ bit_length (n div 2) = 2 * 2 ^ (bit_length (n div 2) - 1)"
      by (cases "bit_length (n div 2)") simp_all
    with ih have "2 ^ bit_length (n div 2) \<le> n" by linarith
    with 1 show ?thesis by (subst bit_length.simps) simp
  qed
qed

lemma bit_length_le: "n < 2 ^ j \<Longrightarrow> bit_length n \<le> j"
proof (cases "n = 0")
  case True
  then show ?thesis by (simp add: bit_length_0)
next
  case False
  assume hi: "n < 2 ^ j"
  from False have "2 ^ (bit_length n - 1) \<le> n" by (intro bit_length_lower) simp
  with hi have "(2::nat) ^ (bit_length n - 1) < 2 ^ j" by linarith
  then have "bit_length n - 1 < j" by (rule power_less_imp_less_exp [rotated]) simp
  then show ?thesis by linarith
qed

lemma bit_length_gt: "2 ^ j \<le> n \<Longrightarrow> j < bit_length n"
proof -
  assume "2 ^ j \<le> n"
  with bit_length_upper [of n] have "(2::nat) ^ j < 2 ^ bit_length n" by linarith
  then show ?thesis by (rule power_less_imp_less_exp [rotated]) simp
qed

lemma bit_length_eqI: "2 ^ k \<le> n \<Longrightarrow> n < 2 ^ Suc k \<Longrightarrow> bit_length n = Suc k"
  using bit_length_le [of n "Suc k"] bit_length_gt [of k n] by linarith

lemma bit_length_mono: "n \<le> m \<Longrightarrow> bit_length n \<le> bit_length m"
  using bit_length_le [of n "bit_length m"] bit_length_upper [of m] by linarith

lemma round_half_even_lower: "(n div 2 ^ k) * 2 ^ k \<le> round_half_even n k"
  by (simp add: round_half_even_def Let_def)

lemma round_half_even_upper: "round_half_even n k \<le> (n div 2 ^ k + 1) * 2 ^ k"
  by (simp add: round_half_even_def Let_def)

lemma round_half_even_exact: "n mod 2 ^ k = 0 \<Longrightarrow> round_half_even n k = n"
  by (auto simp: round_half_even_def Let_def)

lemma round_half_even_ge:
  assumes "j * 2 ^ k \<le> n"
  shows "j * 2 ^ k \<le> round_half_even n k"
proof -
  from assms have "j \<le> n div 2 ^ k" by (simp add: less_eq_div_iff_mult_less_eq)
  then have "j * 2 ^ k \<le> (n div 2 ^ k) * 2 ^ k" by (rule mult_le_mono1)
  with round_half_even_lower [of n k] show ?thesis by linarith
qed

lemma round_half_even_le:
  assumes "n \<le> j * 2 ^ k"
  shows "round_half_even n k \<le> j * 2 ^ k"
proof (cases "n mod 2 ^ k = 0")
  case True
  with assms show ?thesis by (simp only: round_half_even_exact)
next
  case False
  have "n div 2 ^ k < j"
  proof (rule ccontr)
    assume "\<not> n div 2 ^ k < j"
    then have "j \<le> n div 2 ^ k" by simp
    then have "j * 2 ^ k \<le> n" by (simp add: less_eq_div_iff_mult_less_eq)
    with assms have "n = j * 2 ^ k" by simp
    with False show False by simp
  qed
  then have "n div 2 ^ k + 1 \<le> j" by simp
  then have "(n div 2 ^ k + 1) * 2 ^ k \<le> j * 2 ^ k" by (rule mult_le_mono1)
  with round_half_even_upper [of n k] show ?thesis by linarith
qed

lemma round_half_even_mono:
  assumes "n \<le> m"
  shows "round_half_even n k \<le> round_half_even m k"
proof (cases "n div 2 ^ k = m div 2 ^ k")
  case True
  have "(n div 2 ^ k) * 2 ^ k + n mod 2 ^ k = n" "(m div 2 ^ k) * 2 ^ k + m mod 2 ^ k = m"
    by (rule div_mult_mod_eq)+
  with True assms have "n mod 2 ^ k \<le> m mod 2 ^ k" by (metis add_le_cancel_left)
  with True show ?thesis by (auto simp: round_half_even_def Let_def)
next
  case False
  from assms have "n div 2 ^ k \<le> m div 2 ^ k" by (rule div_le_mono)
  with False have "n div 2 ^ k + 1 \<le> m div 2 ^ k" by simp
  then have "(n div 2 ^ k + 1) * 2 ^ k \<le> (m div 2 ^ k) * 2 ^ k" by (rule mult_le_mono1)
  with round_half_even_upper [of n k] round_half_even_lower [of m k] show ?thesis
    by linarith
qed

lemma round53_le_power:
  assumes "n \<le> 2 ^ j"
  shows "round53 n \<le> 2 ^ j"
proof (cases "bit_length n \<le> 53")
  case True
  with assms show ?thesis by (simp add: round53_def)
next
  case False
  then have "0 < n" by (cases "n = 0") (simp_all add: bit_length_0)
  then have "2 ^ (bit_length n - 1) \<le> n" by (rule bit_length_lower)
  with assms have "(2::nat) ^ (bit_length n - 1) \<le> 2 ^ j" by linarith
  then have "bit_length n - 1 \<le> j" by (rule power_le_imp_le_exp [rotated]) simp
  then have "j = (j - (bit_length n - 53)) + (bit_length n - 53)" by linarith
  then have "(2::nat) ^ j = 2 ^ (j - (bit_length n - 53)) * 2 ^ (bit_length n - 53)"
    by (metis power_add)
  with assms round_half_even_le [of n "2 ^ (j - (bit_length n - 53))" "bit_length n - 53"] False
  show ?thesis by (simp add: round53_def)
qed

lemma round53_ge_power:
  assumes "2 ^ j \<le> n"
  shows "2 ^ j \<le> round53 n"
proof (cases "bit_length n \<le> 53")
  case True
  with assms show ?thesis by (simp add: round53_def)
next
  case False
  define k where "k = bit_length n - 53"
  from assms have "0 < n" by (metis less_le_trans zero_less_numeral zero_less_power)
  then have lo: "2 ^ (bit_length n - 1) \<le> n" by (rule bit_length_lower)
  from False have "bit_length n - 1 = (bit_length n - 1 - k) + k" by (simp add: k_def)
  then have "(2::nat) ^ (bit_length n - 1) = 2 ^ (bit_length n - 1 - k) * 2 ^ k"
    by (metis power_add)
  with lo round_half_even_ge [of "2 ^ (bit_length n - 1 - k)" k n]
  have "2 ^ (bit_length n - 1) \<le> round_half_even n k" by simp
  moreover from assms have "j < bit_length n" by (rule bit_length_gt)
  then have "(2::nat) ^ j \<le> 2 ^ (bit_length n - 1)" by (simp add: power_increasing)
  ultimately have "2 ^ j \<le> round_half_even n k" by linarith
  with False show ?thesis by (simp add: round53_def k_def)
qed

lemma round53_mono:
  assumes "n \<le> m"
  shows "round53 n \<le> round53 m"
proof (cases "bit_length n = bit_length m")
  case True
  with assms round_half_even_mono [OF assms] show ?thesis by (simp add: round53_def)
next
  case False
  with bit_length_mono [OF assms] have lt: "bit_length n < bit_length m" by simp
  have "n < 2 ^ bit_length n" by (rule bit_length_upper)
  moreover from lt have "(2::nat) ^ bit_length n \<le> 2 ^ (bit_length m - 1)"
    by (simp add: power_increasing)
  ultimately have a: "n \<le> 2 ^ (bit_length m - 1)" by linarith
  from lt have "0 < m" by (cases "m = 0") (simp_all add: bit_length_0)
  then have b: "2 ^ (bit_length m - 1) \<le> m" by (rule bit_length_lower)
  from round53_le_power [OF a] round53_ge_power [OF b] show ?thesis by linarith
qed

lemma mul_0_8_trunc_mono: "x \<le> y \<Longrightarrow> mul_0_8_trunc x \<le> mul_0_8_trunc y"
  unfolding mul_0_8_trunc_def by (intro div_le_mono round53_mono mult_le_mono1)

lemma int_times_0_8_mono: "a \<le> b \<Longrightarrow> int_times_0_8 a \<le> int_times_0_8 b"
  unfolding int_times_0_8_def float_of_nat_def
  by (simp add: mul_0_8_trunc_mono round53_mono nat_mono)

lemma int_times_0_8_nonneg: "0 \<le> int_times_0_8 a"
  by (simp add: int_times_0_8_def)

text \<open>
  Below \<open>2 ^ 50\<close> free bytes the two roundings do not show: the product is
  four fifths of the free bytes, rounded down.
\<close>

lemma mul_0_8_trunc_exact:
  assumes "n < 2 ^ 50"
  shows "mul_0_8_trunc n = (4 * n) div 5"
proof -
  define P where "P = n * 7205759403792794"
  define m where "m = (4 * n) div 5"
  define t where "t = (4 * n) mod 5"
  from assms have n: "n < 1125899906842624" by simp
  have five: "5 * P = 36028797018963968 * n + 2 * n" by (simp add: P_def)
  have dm: "4 * n = 5 * m + t" by (simp add: m_def t_def)
  have t: "t \<le> 4" by (simp add: t_def)
  have lo: "m * 9007199254740992 \<le> P" using five dm by linarith
  have "5 * P = 9007199254740992 * (4 * n) + 2 * n" using five by simp
  then have "5 * P = 9007199254740992 * (5 * m + t) + 2 * n" by (simp only: dm)
  then have five': "5 * P = 45035996273704960 * m + 9007199254740992 * t + 2 * n"
    by (simp add: algebra_simps)
  have expand: "(m + 1) * 9007199254740992 = 9007199254740992 * m + 9007199254740992"
    by (simp add: algebra_simps)
  with five' t n have hi: "P + 1125899906842624 < (m + 1) * 9007199254740992" by linarith
  have "m * 9007199254740992 \<le> round53 P \<and> round53 P < (m + 1) * 9007199254740992"
  proof (cases "bit_length P \<le> 53")
    case True
    with lo hi show ?thesis by (simp add: round53_def)
  next
    case False
    define k where "k = bit_length P - 53"
    have "P < 2 ^ 103"
    proof -
      have "P < 1125899906842624 * 9007199254740992" using five n by linarith
      then show ?thesis by simp
    qed
    then have "bit_length P \<le> 103" by (rule bit_length_le)
    with False have k: "0 < k" "k \<le> 50" by (simp_all add: k_def)
    define Q :: nat where "Q = 2 ^ (53 - k)"
    define K :: nat where "K = 2 ^ k"
    from k have "Q * K = 2 ^ 53" by (simp add: Q_def K_def power_add [symmetric])
    then have QK: "Q * K = 9007199254740992" by simp
    from k have "K \<le> 2 ^ 50" unfolding K_def by (intro power_increasing) simp_all
    then have K50: "K \<le> 1125899906842624" by simp
    have Kpos: "0 < K" by (simp add: K_def)
    have mB: "(m * Q) * K = m * 9007199254740992" by (simp add: QK mult.assoc)
    have m1B: "((m + 1) * Q) * K = (m + 1) * 9007199254740992" by (simp only: QK mult.assoc)
    have "((m + 1) * Q - 1) * K = ((m + 1) * Q) * K - K" by (simp add: diff_mult_distrib)
    with m1B have jK: "((m + 1) * Q - 1) * K = (m + 1) * 9007199254740992 - K" by simp
    from lo mB have "(m * Q) * K \<le> P" by linarith
    then have "(m * Q) * 2 ^ k \<le> P" unfolding K_def .
    then have "(m * Q) * 2 ^ k \<le> round_half_even P k" by (rule round_half_even_ge)
    then have "(m * Q) * K \<le> round_half_even P k" unfolding K_def .
    with mB have r_lo: "m * 9007199254740992 \<le> round_half_even P k" by linarith
    from hi K50 jK have "P \<le> ((m + 1) * Q - 1) * K" by linarith
    then have "P \<le> ((m + 1) * Q - 1) * 2 ^ k" unfolding K_def .
    then have "round_half_even P k \<le> ((m + 1) * Q - 1) * 2 ^ k" by (rule round_half_even_le)
    then have "round_half_even P k \<le> ((m + 1) * Q - 1) * K" unfolding K_def .
    with jK have "round_half_even P k \<le> (m + 1) * 9007199254740992 - K" by linarith
    with Kpos K50 expand have r_hi: "round_half_even P k < (m + 1) * 9007199254740992"
      by linarith
    from False r_lo r_hi show ?thesis by (simp add: round53_def k_def)
  qed
  then have "round53 P div 9007199254740992 = m"
    by (intro div_nat_eqI) (simp_all add: mult.commute)
  then show ?thesis by (simp add: mul_0_8_trunc_def P_def m_def)
qed


lemma int_times_0_8_exact:
  assumes "0 \<le> f" and "f < 2 ^ 50"
  shows "int_times_0_8 f = (4 * f) div 5"
proof -
  from assms have n: "nat f < 2 ^ 50" by (simp add: nat_less_iff)
  then have "nat f < 2 ^ 53" by (rule less_le_trans) simp
  then have "bit_length (nat f) \<le> 53" by (rule bit_length_le)
  then have "float_of_nat (nat f) = nat f" by (simp add: float_of_nat_def round53_def)
  with mul_0_8_trunc_exact [OF n] have "int_times_0_8 f = int ((4 * nat f) div 5)"
    by (simp add: int_times_0_8_def)
  also from assms(1) have "\<dots> = (4 * f) div 5" by (simp add: zdiv_int)
  finally show ?thesis .
qed

text \<open>The product at the free space of the worked examples.\<close>

lemma int_times_0_8_1000000: "int_times_0_8 1000000 = 800000"
proof -
  have a: "bit_length 1000000 = 20" using bit_length_eqI [of 19 1000000] by simp
  have b: "bit_length 7205759403792794000000 = 73"
    using bit_length_eqI [of 72 7205759403792794000000] by simp
  show ?thesis
    by (simp add: int_times_0_8_def mul_0_8_trunc_def float_of_nat_def round53_def a b
        round_half_even_def)
qed

lemma int_times_0_8_2000000: "int_times_0_8 2000000 = 1600000"
proof -
  have a: "bit_length 2000000 = 21" using bit_length_eqI [of 20 2000000] by simp
  have b: "bit_length 14411518807585588000000 = 74"
    using bit_length_eqI [of 73 14411518807585588000000] by simp
  show ?thesis
    by (simp add: int_times_0_8_def mul_0_8_trunc_def float_of_nat_def round53_def a b
        round_half_even_def)
qed

text \<open>
  Above \<open>2 ^ 50\<close> the roundings show. The second value needs the conversion of the
  integer to a double, which rounds \<open>2 ^ 64 - 1\<close> up to \<open>2 ^ 64\<close>.
\<close>

lemma int_times_0_8_7039999999999999: "int_times_0_8 7039999999999999 = 5632000000000000"
proof -
  have a: "bit_length 7039999999999999 = 53" using bit_length_eqI [of 52 7039999999999999] by simp
  have b: "bit_length 50728546202701262554240596207206 = 106"
    using bit_length_eqI [of 105 50728546202701262554240596207206] by simp
  show ?thesis
    by (simp add: int_times_0_8_def mul_0_8_trunc_def float_of_nat_def round53_def a b
        round_half_even_def)
qed

lemma int_times_0_8_max: "int_times_0_8 18446744073709551615 = 14757395258967642112"
proof -
  have a: "bit_length 18446744073709551615 = 64"
    using bit_length_eqI [of 63 18446744073709551615] by simp
  have f: "float_of_nat 18446744073709551615 = 18446744073709551616"
    by (simp add: float_of_nat_def round53_def a round_half_even_def)
  have b: "bit_length 132922799578491594669078335511855104 = 117"
    using bit_length_eqI [of 116 132922799578491594669078335511855104] by simp
  have "mul_0_8_trunc 18446744073709551616 = 14757395258967642112"
    by (simp add: mul_0_8_trunc_def round53_def b round_half_even_def)
  with f show ?thesis by (simp add: int_times_0_8_def)
qed

section \<open>Properties of the sizing planner\<close>

lemmas sizing_defs = sizing_def max_bytes_of_def fit_file_size_def fit_block_size_def
  whole_blocks_def bind_r_def py_mod_def align_up_def align_down_def

lemma uint_pos: "w \<noteq> 0 \<Longrightarrow> 0 < uint w"
proof -
  assume "w \<noteq> 0"
  then have "uint w \<noteq> 0" by (simp add: uint_0_iff)
  moreover have "0 \<le> uint w" by simp
  ultimately show ?thesis by linarith
qed

text \<open>
  Claim C4. The sizing fails for lack of space exactly when autofit is off and the
  request exceeds the free bytes; the exception then names the request and the free
  bytes. With autofit on it never fails that way.
\<close>

theorem sizing_insufficient_space:
  "sizing requested no_autofit free_w sector_w block_kb = Inl (SystemExit a b)
     \<longleftrightarrow> no_autofit \<and> uint free_w < requested \<and> a = requested \<and> b = uint free_w"
  by (auto simp: sizing_defs Let_def split: if_splits)

theorem sizing_insufficient_space_witness:
  "sizing 5000 True 1000 512 1024 = Inl (SystemExit 5000 1000)
   \<and> sizing 5000 False 1000 512 1024 \<noteq> Inl (SystemExit 5000 1000)"
  using sizing_insufficient_space [of 5000 True 1000 512 1024 5000 1000]
    sizing_insufficient_space [of 5000 False 1000 512 1024 5000 1000]
  by simp

lemma max_bytes_of_Inr:
  "sector_size \<noteq> 0 \<Longrightarrow> \<exists>max_bytes. max_bytes_of requested no_autofit free_bytes sector_size = Inr max_bytes"
  by (simp add: max_bytes_of_def align_down_def)

lemma fit_block_size_zero:
  "0 < sector_size \<Longrightarrow> 0 \<le> file_size \<Longrightarrow> fit_block_size 0 sector_size file_size = Inr 0"
  by (simp add: fit_block_size_def py_mod_def bind_r_def)

lemma whole_blocks_zero: "whole_blocks file_size 0 = Inl ZeroDivisionError"
  by (simp add: whole_blocks_def align_down_def bind_r_def)

text \<open>
  Claim C9. With a block size of zero (\<^verbatim>\<open>--block-kb 0\<close>), a sector size that is not
  zero and no failure for lack of space, the sizing ends in \<^verbatim>\<open>ZeroDivisionError\<close>:
  the block size stays 0 through lines 262 to 266 (\<open>fit_block_size_zero\<close>) and line 267
  divides by it (\<open>whole_blocks_zero\<close>).
\<close>

theorem sizing_zero_block:
  assumes "sector_w \<noteq> 0" and "\<not> (no_autofit \<and> uint free_w < requested)"
  shows "sizing requested no_autofit free_w sector_w 0 = Inl ZeroDivisionError"
proof -
  from assms(1) have s: "0 < uint sector_w" by (rule uint_pos)
  then obtain max_bytes
    where mb: "max_bytes_of requested no_autofit (uint free_w) (uint sector_w) = Inr max_bytes"
    using max_bytes_of_Inr [of "uint sector_w" requested no_autofit "uint free_w"] by auto
  define file_size where "file_size =
    (if fit_file_size requested no_autofit max_bytes < uint sector_w then uint sector_w
     else fit_file_size requested no_autofit max_bytes)"
  from s have "0 \<le> file_size" by (simp add: file_size_def)
  with s have "fit_block_size 0 (uint sector_w) file_size = Inr 0" by (rule fit_block_size_zero)
  with assms(2) mb show ?thesis
    by (auto simp: sizing_def Let_def bind_r_def whole_blocks_zero file_size_def)
qed

theorem sizing_zero_block_witness:
  "sizing 1048576 False 1000000 512 0 = Inl ZeroDivisionError"
  using sizing_zero_block [of 512 False 1000000 1048576] by simp

text \<open>
  Claim C1, at a request that is no multiple of the sector size and is smaller than
  the block: 1000 bytes with \<^verbatim>\<open>--no-autofit\<close>, 512-byte sectors, 1000000 bytes free and
  the default 1 MiB block. Line 266 cuts the block to the file size, 1000 bytes, which
  is not a multiple of 512.
\<close>

theorem sizing_unaligned_block:
  "sizing 1000 True 1000000 512 1024 = Inr \<lparr>plan_file_size = 1000, plan_block_size = 1000\<rparr>
   \<and> (1000::int) mod uint (512 :: 32 word) \<noteq> 0"
  by (simp add: sizing_defs)

lemma sizing_sector_pos:
  assumes "sizing requested no_autofit free_w sector_w block_kb = Inr p"
  shows "0 < uint sector_w"
proof (rule ccontr)
  assume "\<not> 0 < uint sector_w"
  then have "uint sector_w = 0" using uint_nonnegative [of sector_w] by linarith
  then have "\<exists>e. sizing requested no_autofit free_w sector_w block_kb = Inl e"
    by (simp add: sizing_defs Let_def)
  with assms show False by auto
qed

lemma sizing_stages:
  assumes "sizing requested no_autofit free_w sector_w block_kb = Inr p"
  obtains max_bytes file_size
  where "max_bytes_of requested no_autofit (uint free_w) (uint sector_w) = Inr max_bytes"
    and "file_size = (if fit_file_size requested no_autofit max_bytes < uint sector_w
                      then uint sector_w else fit_file_size requested no_autofit max_bytes)"
    and "fit_block_size block_kb (uint sector_w) file_size = Inr (plan_block_size p)"
    and "whole_blocks file_size (plan_block_size p) = Inr (plan_file_size p)"
  using assms
  by (auto simp: sizing_def Let_def bind_r_def split: sum.splits if_splits)

lemma fit_block_size_Inr:
  assumes "fit_block_size block_kb sector_size file_size = Inr b"
    and "b1 = (if block_kb * 1024 mod sector_size \<noteq> 0
               then ((block_kb * 1024 + sector_size - 1) div sector_size) * sector_size
               else block_kb * 1024)"
  shows "b = (if b1 > file_size then file_size else b1)" and "sector_size \<noteq> 0"
  using assms
  by (auto simp: fit_block_size_def py_mod_def align_up_def bind_r_def Let_def split: if_splits)

lemma whole_blocks_cases:
  assumes "whole_blocks file_size b = Inr f"
  shows "b \<noteq> 0 \<and> f = (if (file_size div b) * b = 0 then b else (file_size div b) * b)"
  using assms
  by (auto simp: whole_blocks_def align_down_def bind_r_def split: if_splits)

lemma whole_pos:
  fixes b :: int
  assumes "0 < b" and "b \<le> c"
  shows "b \<le> (c div b) * b" and "(c div b) * b \<le> c"
proof -
  from assms have "0 < c div b" by (simp add: pos_imp_zdiv_pos_iff)
  then have "1 \<le> c div b" by simp
  with assms(1) have "1 * b \<le> (c div b) * b" by (intro mult_right_mono) simp_all
  then show "b \<le> (c div b) * b" by simp
  have "(c div b) * b + c mod b = c" by simp
  moreover from assms(1) have "0 \<le> c mod b" by simp
  ultimately show "(c div b) * b \<le> c" by linarith
qed

lemma whole_neg:
  fixes b :: int
  assumes "b < 0" and "0 < c" and "c \<le> c'"
  shows "0 < (c div b) * b" and "(c div b) * b \<le> (c' div b) * b"
proof -
  from assms have "c div b < 0" by (simp add: neg_imp_zdiv_neg_iff)
  with assms(1) show "0 < (c div b) * b" by (simp add: mult_neg_neg)
  from assms have "c' div b \<le> c div b" by (intro zdiv_mono1_neg) simp_all
  with assms(1) show "(c div b) * b \<le> (c' div b) * b" by (intro mult_right_mono_neg) simp_all
qed


lemma final_size_mono:
  fixes b1 c c' :: int
  assumes c: "0 < c" "c \<le> c'"
    and b: "b = (if b1 > c then c else b1)" "b' = (if b1 > c' then c' else b1)"
    and nz: "b \<noteq> 0" "b' \<noteq> 0"
    and f: "f = (if (c div b) * b = 0 then b else (c div b) * b)"
           "f' = (if (c' div b') * b' = 0 then b' else (c' div b') * b')"
  shows "f \<le> f'"
proof -
  consider (above) "c' < b1" | (between) "c < b1" "b1 \<le> c'" | (pos) "0 < b1" "b1 \<le> c"
    | (neg) "b1 < 0"
  proof -
    from b(1) nz(1) have "b1 \<le> c \<Longrightarrow> b1 \<noteq> 0" by auto
    then show ?thesis using that by linarith
  qed
  then show ?thesis
  proof cases
    case above
    with c b f show ?thesis by simp
  next
    case between
    with c have b1: "0 < b1" by simp
    from between b c have bb: "b = c" "b' = b1" by simp_all
    from bb c f have f1: "f = c" by simp
    have q: "b1 \<le> (c' div b1) * b1" by (rule whole_pos(1) [OF b1 between(2)])
    with b1 have "(c' div b1) * b1 \<noteq> 0" by linarith
    with bb f have "f' = (c' div b1) * b1" by simp
    with f1 q between(1) show ?thesis by linarith
  next
    case pos
    with b c have bb: "b = b1" "b' = b1" by simp_all
    from pos c have le': "b1 \<le> c'" by simp
    from c(2) pos(1) have "c div b1 \<le> c' div b1" by (intro zdiv_mono1) simp_all
    with pos(1) have m: "(c div b1) * b1 \<le> (c' div b1) * b1"
      by (intro mult_right_mono) simp_all
    have q: "b1 \<le> (c div b1) * b1" by (rule whole_pos(1) [OF pos])
    have q': "b1 \<le> (c' div b1) * b1" by (rule whole_pos(1) [OF pos(1) le'])
    from q q' pos(1) have "(c div b1) * b1 \<noteq> 0" "(c' div b1) * b1 \<noteq> 0" by linarith+
    with bb f have "f = (c div b1) * b1" "f' = (c' div b1) * b1" by simp_all
    with m show ?thesis by linarith
  next
    case neg
    with b c have bb: "b = b1" "b' = b1" by simp_all
    from c have c': "0 < c'" by simp
    have q: "0 < (c div b1) * b1" by (rule whole_neg(1) [OF neg c])
    have q': "0 < (c' div b1) * b1" by (rule whole_neg(1) [OF neg c' order_refl])
    have m: "(c div b1) * b1 \<le> (c' div b1) * b1" by (rule whole_neg(2) [OF neg c])
    from q q' have "(c div b1) * b1 \<noteq> 0" "(c' div b1) * b1 \<noteq> 0" by linarith+
    with bb f have "f = (c div b1) * b1" "f' = (c' div b1) * b1" by simp_all
    with m show ?thesis by linarith
  qed
qed

text \<open>
  What the plan does keep when the block size asked for is positive: a positive block
  no larger than the file, a file of whole blocks, and a file of at least one sector.
\<close>

lemma aligned_block_ge_sector:
  fixes s b0 :: int
  assumes "0 < s" and "0 < b0"
    and "b1 = (if b0 mod s \<noteq> 0 then ((b0 + s - 1) div s) * s else b0)"
  shows "s \<le> b1" and "b1 mod s = 0"
proof -
  show "b1 mod s = 0" using assms(3) by simp
  show "s \<le> b1"
  proof (cases "b0 mod s \<noteq> 0")
    case True
    from assms(1,2) have "s \<le> b0 + s - 1" by simp
    from whole_pos(1) [OF assms(1) this] True assms(3) show ?thesis by simp
  next
    case False
    have "\<not> b0 < s"
    proof
      assume "b0 < s"
      with assms(2) have "b0 mod s = b0" by (simp add: mod_pos_pos_trivial)
      with False assms(2) show False by simp
    qed
    with False assms(3) show ?thesis by simp
  qed
qed

lemma sizing_invariants:
  assumes p: "sizing requested no_autofit free_w sector_w block_kb = Inr p"
    and kb: "0 < block_kb"
  shows "0 < plan_block_size p"
    and "plan_block_size p \<le> plan_file_size p"
    and "plan_file_size p mod plan_block_size p = 0"
    and "uint sector_w \<le> plan_file_size p"
    and "0 < plan_file_size p"
proof -
  let ?s = "uint sector_w"
  from p have s: "0 < ?s" by (rule sizing_sector_pos)
  from p obtain max_bytes c
    where c: "c = (if fit_file_size requested no_autofit max_bytes < ?s then ?s
                   else fit_file_size requested no_autofit max_bytes)"
      and blk: "fit_block_size block_kb ?s c = Inr (plan_block_size p)"
      and fin: "whole_blocks c (plan_block_size p) = Inr (plan_file_size p)"
    by (rule sizing_stages)
  from c have sc: "?s \<le> c" by simp
  define b1 where "b1 = (if block_kb * 1024 mod ?s \<noteq> 0
               then ((block_kb * 1024 + ?s - 1) div ?s) * ?s else block_kb * 1024)"
  from kb have "0 < block_kb * 1024" by simp
  from aligned_block_ge_sector(1) [OF s this b1_def] have sb1: "?s \<le> b1" .
  have b: "plan_block_size p = (if b1 > c then c else b1)"
    by (rule fit_block_size_Inr(1) [OF blk b1_def])
  with sb1 sc s have bpos: "0 < plan_block_size p" and bc: "plan_block_size p \<le> c"
    and sb: "?s \<le> plan_block_size p"
    by (simp_all split: if_splits)
  note w = whole_pos [OF bpos bc]
  from w(1) bpos have "(c div plan_block_size p) * plan_block_size p \<noteq> 0" by linarith
  with whole_blocks_cases [OF fin]
  have f: "plan_file_size p = (c div plan_block_size p) * plan_block_size p" by simp
  from bpos show "0 < plan_block_size p" .
  from f w(1) show "plan_block_size p \<le> plan_file_size p" by linarith
  from f show "plan_file_size p mod plan_block_size p = 0" by simp
  from f w(1) sb show "?s \<le> plan_file_size p" by linarith
  from f w(1) bpos show "0 < plan_file_size p" by linarith
qed

text \<open>
  Claim C3, as the code has it. Under autofit, with a sector size that is not zero and
  fewer than \<open>2 ^ 50\<close> free bytes, the ceiling \<^verbatim>\<open>max_bytes\<close> is four fifths of the free
  bytes rounded down to a whole number and then to a multiple of the sector size; the
  file size of lines 255 to 257 is the request, or the ceiling when the request is 0
  or above the ceiling; and the plan is computed from that file size. The worked
  example (512-byte sectors, 1000000 bytes free, no request, 1 MiB blocks) gives
  799744 bytes.
\<close>

theorem autofit_file_size:
  assumes "sector_w \<noteq> 0" and "uint free_w < 2 ^ 50"
  shows "max_bytes_of requested False (uint free_w) (uint sector_w)
           = Inr (((4 * uint free_w) div 5 div uint sector_w) * uint sector_w)
     \<and> fit_file_size requested False max_bytes
           = (if requested = 0 \<or> requested > max_bytes then max_bytes else requested)
     \<and> sizing requested False free_w sector_w block_kb =
         (let max_bytes = ((4 * uint free_w) div 5 div uint sector_w) * uint sector_w;
              file_size = (if requested = 0 \<or> requested > max_bytes then max_bytes
                           else requested);
              clamped = (if file_size < uint sector_w then uint sector_w else file_size) in
          bind_r (fit_block_size block_kb (uint sector_w) clamped) (\<lambda>block_size.
          bind_r (whole_blocks clamped block_size) (\<lambda>file_size.
          Inr \<lparr>plan_file_size = file_size, plan_block_size = block_size\<rparr>)))"
proof -
  from assms(1) have s: "uint sector_w \<noteq> 0" by (simp add: uint_0_iff)
  from assms(2) have ex: "int_times_0_8 (uint free_w) = (4 * uint free_w) div 5"
    by (intro int_times_0_8_exact) simp_all
  from s ex have mb: "max_bytes_of requested False (uint free_w) (uint sector_w)
           = Inr (((4 * uint free_w) div 5 div uint sector_w) * uint sector_w)"
    by (simp add: max_bytes_of_def align_down_def)
  have fit: "fit_file_size requested False max_bytes
      = (if requested = 0 \<or> requested > max_bytes then max_bytes else requested)"
    by (simp add: fit_file_size_def)
  have whole: "sizing requested False free_w sector_w block_kb =
         (let max_bytes = ((4 * uint free_w) div 5 div uint sector_w) * uint sector_w;
              file_size = (if requested = 0 \<or> requested > max_bytes then max_bytes
                           else requested);
              clamped = (if file_size < uint sector_w then uint sector_w else file_size) in
          bind_r (fit_block_size block_kb (uint sector_w) clamped) (\<lambda>block_size.
          bind_r (whole_blocks clamped block_size) (\<lambda>file_size.
          Inr \<lparr>plan_file_size = file_size, plan_block_size = block_size\<rparr>)))"
    by (simp add: sizing_def mb bind_r_def Let_def fit_file_size_def)
  from mb fit whole show ?thesis by (intro conjI)
qed

theorem autofit_file_size_witness:
  "(512 :: 32 word) \<noteq> 0 \<and> uint (1000000 :: 64 word) < 2 ^ 50
   \<and> max_bytes_of 0 False (uint (1000000 :: 64 word)) (uint (512 :: 32 word)) = Inr 799744
   \<and> fit_file_size 0 False 799744 = 799744
   \<and> sizing 0 False 1000000 512 1024
       = Inr \<lparr>plan_file_size = 799744, plan_block_size = 799744\<rparr>"
proof -
  have nz: "(512 :: 32 word) \<noteq> 0" by simp
  have lt: "uint (1000000 :: 64 word) < 2 ^ 50" by simp
  note t = autofit_file_size [OF nz lt, of 0 799744 1024]
  from t have mb: "max_bytes_of 0 False (uint (1000000 :: 64 word)) (uint (512 :: 32 word))
      = Inr 799744" by simp
  from t have fs: "fit_file_size 0 False 799744 = 799744" by simp
  from t have "sizing 0 False 1000000 512 1024
       = Inr \<lparr>plan_file_size = 799744, plan_block_size = 799744\<rparr>"
    by (simp add: fit_block_size_def whole_blocks_def bind_r_def py_mod_def align_up_def
        align_down_def)
  with nz lt mb fs show ?thesis by (intro conjI)
qed

text \<open>
  Claim C3, as stated, holds of every amount of free space. The product is a double:
  with 7039999999999999 bytes free and 512-byte sectors the ceiling is
  5632000000000000, above four fifths of the free bytes, where rounding the exact
  product down gives 5631999999999488; with \<open>2 ^ 64 - 1\<close> bytes free and 1-byte
  sectors it is 14757395258967642112 instead of 14757395258967641292.
\<close>

theorem autofit_file_size_counterexample:
  "max_bytes_of 0 False (uint (7039999999999999 :: 64 word)) (uint (512 :: 32 word))
     = Inr 5632000000000000
   \<and> ((4 * 7039999999999999) div 5 div 512) * 512 = (5631999999999488 :: int)
   \<and> (4 * 7039999999999999 :: int) < 5 * 5632000000000000
   \<and> max_bytes_of 0 False (uint (18446744073709551615 :: 64 word)) (uint (1 :: 32 word))
     = Inr 14757395258967642112
   \<and> ((4 * 18446744073709551615) div 5 div 1) * 1 = (14757395258967641292 :: int)"
  by (simp add: max_bytes_of_def align_down_def int_times_0_8_7039999999999999
      int_times_0_8_max)

text \<open>
  Claim C8. Under autofit, with the request, the sector size and the block size fixed,
  more free bytes never give a smaller file size.
\<close>

theorem autofit_monotone:
  assumes le: "free_w \<le> free_w'"
    and p: "sizing requested False free_w sector_w block_kb = Inr p"
    and p': "sizing requested False free_w' sector_w block_kb = Inr p'"
  shows "plan_file_size p \<le> plan_file_size p'"
proof -
  let ?s = "uint sector_w"
  from p have s: "0 < ?s" by (rule sizing_sector_pos)
  from p obtain max_bytes c
    where mb: "max_bytes_of requested False (uint free_w) ?s = Inr max_bytes"
      and c: "c = (if fit_file_size requested False max_bytes < ?s then ?s
                   else fit_file_size requested False max_bytes)"
      and blk: "fit_block_size block_kb ?s c = Inr (plan_block_size p)"
      and fin: "whole_blocks c (plan_block_size p) = Inr (plan_file_size p)"
    by (rule sizing_stages)
  from p' obtain max_bytes' c'
    where mb': "max_bytes_of requested False (uint free_w') ?s = Inr max_bytes'"
      and c': "c' = (if fit_file_size requested False max_bytes' < ?s then ?s
                   else fit_file_size requested False max_bytes')"
      and blk': "fit_block_size block_kb ?s c' = Inr (plan_block_size p')"
      and fin': "whole_blocks c' (plan_block_size p') = Inr (plan_file_size p')"
    by (rule sizing_stages)
  from le have "uint free_w \<le> uint free_w'" by (simp add: word_le_def)
  then have "int_times_0_8 (uint free_w) \<le> int_times_0_8 (uint free_w')"
    by (rule int_times_0_8_mono)
  with s have "int_times_0_8 (uint free_w) div ?s \<le> int_times_0_8 (uint free_w') div ?s"
    by (intro zdiv_mono1) simp_all
  with s have "(int_times_0_8 (uint free_w) div ?s) * ?s \<le> (int_times_0_8 (uint free_w') div ?s) * ?s"
    by (intro mult_right_mono) simp_all
  with mb mb' s have "max_bytes \<le> max_bytes'"
    by (simp add: max_bytes_of_def align_down_def)
  then have "fit_file_size requested False max_bytes \<le> fit_file_size requested False max_bytes'"
    by (auto simp: fit_file_size_def)
  with c c' s have cc: "0 < c" "c \<le> c'" by auto
  define b1 where "b1 = (if block_kb * 1024 mod ?s \<noteq> 0
               then ((block_kb * 1024 + ?s - 1) div ?s) * ?s else block_kb * 1024)"
  have b: "plan_block_size p = (if b1 > c then c else b1)"
          "plan_block_size p' = (if b1 > c' then c' else b1)"
    using fit_block_size_Inr(1) [OF blk b1_def] fit_block_size_Inr(1) [OF blk' b1_def] .
  note w = whole_blocks_cases [OF fin] and w' = whole_blocks_cases [OF fin']
  show ?thesis
    by (rule final_size_mono [OF cc b conjunct1 [OF w] conjunct1 [OF w']
          conjunct2 [OF w] conjunct2 [OF w']])
qed

theorem autofit_monotone_witness:
  "(1000000 :: 64 word) \<le> 2000000
   \<and> sizing 0 False 1000000 512 1024
       = Inr \<lparr>plan_file_size = 799744, plan_block_size = 799744\<rparr>
   \<and> sizing 0 False 2000000 512 1024
       = Inr \<lparr>plan_file_size = 1048576, plan_block_size = 1048576\<rparr>
   \<and> plan_file_size \<lparr>plan_file_size = 799744, plan_block_size = 799744\<rparr>
       \<le> plan_file_size \<lparr>plan_file_size = 1048576, plan_block_size = 1048576\<rparr>"
proof -
  have le: "(1000000 :: 64 word) \<le> 2000000" by simp
  have p: "sizing 0 False 1000000 512 1024
       = Inr \<lparr>plan_file_size = 799744, plan_block_size = 799744\<rparr>"
    by (simp add: sizing_defs int_times_0_8_1000000)
  have p': "sizing 0 False 2000000 512 1024
       = Inr \<lparr>plan_file_size = 1048576, plan_block_size = 1048576\<rparr>"
    by (simp add: sizing_defs int_times_0_8_2000000)
  from le p p' autofit_monotone [OF le p p'] show ?thesis by (intro conjI)
qed

section \<open>Properties of the pass loops\<close>

lemma all_ok_Nil: "all_ok env []"
  by (simp add: all_ok_def)

lemma all_ok_snoc: "all_ok env (xs @ [x]) \<longleftrightarrow> all_ok env xs \<and> \<not> transfer_failed env (length xs) x"
  by (auto simp: all_ok_def nth_append less_Suc_eq)

lemma transfer_all_result:
  assumes "transfer_all d env block_size to_go sent = Some r" and "all_ok env sent"
  shows "(fst r = None \<and> all_ok env (snd r))
       \<or> (\<exists>ys x. snd r = ys @ [x] \<and> all_ok env ys \<and> transfer_failed env (length ys) x
            \<and> fst r = Some (OSError_transfer d
                  (uint (snd (transfer env (length ys) (word_of_int x))))
                  (last_error env (length ys))))"
  using assms(2)
proof (induct rule: transfer_all.raw_induct [OF _ assms(1)])
  case (1 transfer_all d env block_size to_go sent r)
  show ?case
  proof (cases "0 < to_go")
    case False
    with 1(2,3) show ?thesis by auto
  next
    case True
    define this_io where "this_io = (if block_size \<le> to_go then block_size else to_go)"
    show ?thesis
    proof (cases "transfer_failed env (length sent) this_io")
      case failed: True
      with True 1(2) have "r = (Some (OSError_transfer d
          (uint (snd (transfer env (length sent) (word_of_int this_io))))
          (last_error env (length sent))), sent @ [this_io])"
        by (simp add: this_io_def Let_def)
      with failed 1(3) show ?thesis by auto
    next
      case ok: False
      with True 1(2) have "transfer_all d env block_size (to_go - this_io) (sent @ [this_io]) = Some r"
        by (simp add: this_io_def Let_def)
      moreover from ok 1(3) have "all_ok env (sent @ [this_io])" by (simp add: all_ok_snoc)
      ultimately show ?thesis by (rule 1(1))
    qed
  qed
qed

lemma transfer_all_extends:
  assumes "transfer_all d env block_size to_go sent = Some r"
  shows "\<exists>more. snd r = sent @ more"
proof (induct rule: transfer_all.raw_induct [OF _ assms])
  case (1 transfer_all d env block_size to_go sent r)
  show ?case
  proof (cases "0 < to_go")
    case False
    with 1(2) show ?thesis by auto
  next
    case True
    define this_io where "this_io = (if block_size \<le> to_go then block_size else to_go)"
    show ?thesis
    proof (cases "transfer_failed env (length sent) this_io")
      case failed: True
      with True 1(2) show ?thesis by (auto simp: this_io_def Let_def)
    next
      case ok: False
      with True 1(2) have "transfer_all d env block_size (to_go - this_io) (sent @ [this_io]) = Some r"
        by (simp add: this_io_def Let_def)
      then have "\<exists>more. snd r = (sent @ [this_io]) @ more" by (rule 1(1))
      then show ?thesis by auto
    qed
  qed
qed

lemma transfer_all_whole_blocks:
  assumes bs: "0 < block_size"
    and ok: "\<And>n. length sent \<le> n \<Longrightarrow> \<not> transfer_failed env n block_size"
  shows "transfer_all d env block_size (int k * block_size) sent
           = Some (None, sent @ replicate k block_size)"
  using ok
proof (induction k arbitrary: sent)
  case 0
  show ?case by (subst transfer_all.simps) simp
next
  case (Suc k)
  from bs have pos: "0 < int (Suc k) * block_size" by simp
  from bs have ge: "block_size \<le> int (Suc k) * block_size"
    by (simp add: algebra_simps)
  have rest: "int (Suc k) * block_size - block_size = int k * block_size"
    by (simp add: algebra_simps)
  have "transfer_all d env block_size (int k * block_size) (sent @ [block_size])
          = Some (None, (sent @ [block_size]) @ replicate k block_size)"
    by (rule Suc.IH) (simp add: Suc.prems)
  with pos ge rest Suc.prems [of "length sent"] show ?case
    by (subst transfer_all.simps) (simp add: Let_def replicate_app_Cons_same del: of_nat_Suc)
qed


lemma loop_inv_initial: "loop_inv env file_size passes min_seconds initial_state"
  by (simp add: loop_inv_def initial_state_def)

lemma loop_inv_step:
  assumes inv: "loop_inv env file_size passes min_seconds s"
    and cond: "passes_done s < passes \<or> flt (total_elapsed s) min_seconds"
    and s': "per_pass s' = per_pass s @ [throughput_mb_s file_size (pass_elapsed env (length (per_pass s)))]"
      "total_elapsed s' = fadd (total_elapsed s) (pass_elapsed env (length (per_pass s)))"
      "passes_done s' = passes_done s + 1"
  shows "loop_inv env file_size passes min_seconds s'"
proof -
  let ?n = "length (per_pass s)"
  from inv have a: "passes_done s = int ?n"
    and b: "total_elapsed s = elapsed_total env ?n"
    and c: "\<forall>i<?n. per_pass s ! i = throughput_mb_s file_size (pass_elapsed env i)"
    and m: "\<forall>k<?n. int k < passes \<or> flt (elapsed_total env k) min_seconds"
    by (simp_all add: loop_inv_def)
  have len: "length (per_pass s') = Suc ?n" by (simp add: s'(1))
  have 1: "passes_done s' = int (length (per_pass s'))" by (simp add: len s'(3) a)
  have 2: "total_elapsed s' = elapsed_total env (length (per_pass s'))"
    by (simp add: len s'(2) b)
  have 3: "\<forall>i<length (per_pass s'). per_pass s' ! i = throughput_mb_s file_size (pass_elapsed env i)"
    using c by (auto simp: len s'(1) nth_append less_Suc_eq)
  have 4: "\<forall>k<length (per_pass s').
        int k < passes \<or> flt (elapsed_total env k) min_seconds"
  proof (intro allI impI)
    fix k assume "k < length (per_pass s')"
    then consider "k < ?n" | "k = ?n" by (auto simp: len less_Suc_eq)
    then show "int k < passes \<or> flt (elapsed_total env k) min_seconds"
    proof cases
      case 1
      with m show ?thesis by simp
    next
      case 2
      with cond a b show ?thesis by simp
    qed
  qed
  from 1 2 3 4 show ?thesis by (simp only: loop_inv_def)
qed

lemma pass_loop_inv:
  assumes "pass_loop d env file_size block_size passes min_seconds s = Some r"
    and "loop_inv env file_size passes min_seconds s"
    and "ticks s = 2 * length (per_pass s)"
  shows "loop_inv env file_size passes min_seconds (snd r)
       \<and> (fst r = None \<longrightarrow>
            passes \<le> passes_done (snd r) \<and> \<not> flt (total_elapsed (snd r)) min_seconds)"
  using assms(2,3)
proof (induct rule: pass_loop.raw_induct [OF _ assms(1)])
  case (1 pass_loop d env file_size block_size passes min_seconds s r)
  show ?case
  proof (cases "passes_done s < passes \<or> flt (total_elapsed s) min_seconds")
    case False
    with 1(2,3) show ?thesis by auto
  next
    case True
    show ?thesis
    proof (cases "seek_ok env (length (per_pass s))")
      case False
      with True 1(2,3) show ?thesis by auto
    next
      case seek: True
      from True seek 1(2) obtain err sent
        where t: "transfer_all d env block_size file_size (issued s) = Some (err, sent)"
        by (auto simp: Let_def split: Option.bind_splits)
      show ?thesis
      proof (cases err)
        case (Some e)
        with True seek 1(2) t have "r = (Some e, s\<lparr>ticks := ticks s + 1, issued := sent\<rparr>)"
          by (simp add: Let_def)
        with 1(3) show ?thesis by (simp add: loop_inv_def)
      next
        case None
        define s' where "s' = s\<lparr>issued := sent, ticks := ticks s + 2,
            total_elapsed := fadd (total_elapsed s)
              (fsub (perf_counter env (ticks s + 1)) (perf_counter env (ticks s))),
            per_pass := per_pass s @ [throughput_mb_s file_size
              (fsub (perf_counter env (ticks s + 1)) (perf_counter env (ticks s)))],
            passes_done := passes_done s + 1\<rparr>"
        from None True seek 1(2) t
        have run: "pass_loop d env file_size block_size passes min_seconds s' = Some r"
          by (simp add: Let_def s'_def)
        have "loop_inv env file_size passes min_seconds s'"
          by (rule loop_inv_step [OF 1(3) True]) (simp_all add: s'_def pass_elapsed_def 1(4))
        moreover from 1(4) have "ticks s' = 2 * length (per_pass s')" by (simp add: s'_def)
        ultimately show ?thesis using run by (intro 1(1))
      qed
    qed
  qed
qed

lemma pass_loop_transfers:
  assumes "pass_loop d env file_size block_size passes min_seconds s = Some r"
    and "all_ok env (issued s)"
    and "ticks s = 2 * length (per_pass s)"
  shows "(fst r = None \<and> all_ok env (issued (snd r))
            \<and> ticks (snd r) = 2 * length (per_pass (snd r)))
       \<or> (fst r = Some OSError_seek \<and> all_ok env (issued (snd r))
            \<and> ticks (snd r) = 2 * length (per_pass (snd r)))
       \<or> (\<exists>ys x. issued (snd r) = ys @ [x] \<and> all_ok env ys
            \<and> transfer_failed env (length ys) x
            \<and> fst r = Some (OSError_transfer d
                  (uint (snd (transfer env (length ys) (word_of_int x))))
                  (last_error env (length ys)))
            \<and> ticks (snd r) = 2 * length (per_pass (snd r)) + 1)"
  using assms(2,3)
proof (induct rule: pass_loop.raw_induct [OF _ assms(1)])
  case (1 pass_loop d env file_size block_size passes min_seconds s r)
  show ?case
  proof (cases "passes_done s < passes \<or> flt (total_elapsed s) min_seconds")
    case False
    with 1(2,3,4) show ?thesis by auto
  next
    case True
    show ?thesis
    proof (cases "seek_ok env (length (per_pass s))")
      case False
      with True 1(2,3,4) show ?thesis by auto
    next
      case seek: True
      from True seek 1(2) obtain err sent
        where t: "transfer_all d env block_size file_size (issued s) = Some (err, sent)"
        by (auto simp: Let_def split: Option.bind_splits)
      note res = transfer_all_result [OF t 1(3)]
      show ?thesis
      proof (cases err)
        case (Some e)
        with True seek 1(2) t have r: "r = (Some e, s\<lparr>ticks := ticks s + 1, issued := sent\<rparr>)"
          by (simp add: Let_def)
        from res Some obtain ys x where "sent = ys @ [x]" "all_ok env ys"
          "transfer_failed env (length ys) x"
          "e = OSError_transfer d (uint (snd (transfer env (length ys) (word_of_int x))))
                  (last_error env (length ys))"
          by auto
        with r 1(4) show ?thesis by simp
      next
        case None
        define s' where "s' = s\<lparr>issued := sent, ticks := ticks s + 2,
            total_elapsed := fadd (total_elapsed s)
              (fsub (perf_counter env (ticks s + 1)) (perf_counter env (ticks s))),
            per_pass := per_pass s @ [throughput_mb_s file_size
              (fsub (perf_counter env (ticks s + 1)) (perf_counter env (ticks s)))],
            passes_done := passes_done s + 1\<rparr>"
        from None True seek 1(2) t
        have run: "pass_loop d env file_size block_size passes min_seconds s' = Some r"
          by (simp add: Let_def s'_def)
        from res None have "all_ok env (issued s')" by (simp add: s'_def)
        moreover from 1(4) have "ticks s' = 2 * length (per_pass s')" by (simp add: s'_def)
        ultimately show ?thesis using run by (intro 1(1))
      qed
    qed
  qed
qed

lemma run_tests_Inr:
  assumes "run_tests d env file_size block_size passes min_seconds = Some (Inr series)"
  shows "\<exists>s. pass_loop d env file_size block_size passes min_seconds initial_state = Some (None, s)
         \<and> series = per_pass s"
  using assms
  by (auto simp: run_tests_def split: if_splits option.splits)

lemma run_tests_direction:
  assumes "run_write_tests env file_size block_size passes min_seconds = Some r
         \<or> run_read_tests env file_size block_size passes min_seconds = Some r"
  shows "\<exists>d. run_tests d env file_size block_size passes min_seconds = Some r"
  using assms by (auto simp: run_write_tests_def run_read_tests_def)

lemma not_flt_cases: "\<not> flt a b \<Longrightarrow> b = NaN \<or> a = NaN \<or> fle b a"
  by (cases a; cases b) auto

text \<open>The runs used as concrete instances.\<close>

lemma bit_length_1: "bit_length (Suc 0) = 1"
  using bit_length_eqI [of 0 "Suc 0"] by simp

lemma round_double_1: "round_double 1 = Fin 1"
  by (simp add: round_double_def ilog2_def bit_length_1 pow2_def nearest_even_def)

lemma round_double_2: "round_double 2 = Fin 2"
proof -
  have "bit_length 2 = 2" using bit_length_eqI [of 1 2] by simp
  then show ?thesis
    by (simp add: round_double_def ilog2_def pow2_def nearest_even_def)
qed

lemma round_double_0: "round_double 0 = Fin 0"
  by (simp add: round_double_def)

lemma echo_env_simps:
  "setup_ok echo_env" "seek_ok echo_env i" "perf_counter echo_env n = Fin (real n)"
  "transfer echo_env n c = (True, c)"
  by (simp_all add: echo_env_def)

lemma frozen_env_simps:
  "setup_ok frozen_env" "seek_ok frozen_env i" "perf_counter frozen_env n = Fin 0"
  "transfer frozen_env n c = (True, c)"
  by (simp_all add: frozen_env_def)



lemma echo_env_ok: "\<not> transfer_failed echo_env n 512"
  by (simp add: transfer_failed_def echo_env_simps)

lemma frozen_env_ok: "\<not> transfer_failed frozen_env n 4096"
  by (simp add: transfer_failed_def frozen_env_simps)

lemma echo_env_pass: "transfer_all d echo_env 512 1024 sent = Some (None, sent @ [512, 512])"
  using transfer_all_whole_blocks [of 512 sent echo_env d "Suc (Suc 0)"] echo_env_ok
  by simp

lemma frozen_env_pass: "transfer_all d frozen_env 4096 4096 sent = Some (None, sent @ [4096])"
  using transfer_all_whole_blocks [of 4096 sent frozen_env d "Suc 0"] frozen_env_ok
  by simp



lemma echo_env_loop:
  "pass_loop d echo_env 1024 512 2 (Fin 0) initial_state
     = Some (None, \<lparr>per_pass = [1 / 1024, 1 / 1024], total_elapsed = Fin 2, passes_done = 2,
          ticks = 4, issued = [512, 512, 512, 512]\<rparr>)"
  apply (subst pass_loop.simps)
  apply (simp add: initial_state_def echo_env_simps echo_env_pass Let_def throughput_mb_s_def
      fsub_def round_double_1)
  apply (subst pass_loop.simps)
  apply (simp add: echo_env_simps echo_env_pass Let_def throughput_mb_s_def fsub_def
      round_double_1 round_double_2)
  apply (subst pass_loop.simps)
  apply simp
  done

lemma echo_env_loop_nan:
  "pass_loop d echo_env 1024 512 1 NaN initial_state
     = Some (None, \<lparr>per_pass = [1 / 1024], total_elapsed = Fin 1, passes_done = 1,
          ticks = 2, issued = [512, 512]\<rparr>)"
  apply (subst pass_loop.simps)
  apply (simp add: initial_state_def echo_env_simps echo_env_pass Let_def throughput_mb_s_def
      fsub_def round_double_1)
  apply (subst pass_loop.simps)
  apply simp
  done

lemma frozen_env_loop:
  "pass_loop d frozen_env 4096 4096 1 (Fin 0) initial_state
     = Some (None, \<lparr>per_pass = [0], total_elapsed = Fin 0, passes_done = 1,
          ticks = 2, issued = [4096]\<rparr>)"
  apply (subst pass_loop.simps)
  apply (simp add: initial_state_def frozen_env_simps frozen_env_pass Let_def throughput_mb_s_def
      fsub_def round_double_0)
  apply (subst pass_loop.simps)
  apply simp
  done



lemma echo_env_run:
  "run_write_tests echo_env 1024 512 2 (Fin 0) = Some (Inr [1 / 1024, 1 / 1024])"
  by (simp add: run_write_tests_def run_tests_def echo_env_simps echo_env_loop)

lemma echo_env_run_nan: "run_write_tests echo_env 1024 512 1 NaN = Some (Inr [1 / 1024])"
  by (simp add: run_write_tests_def run_tests_def echo_env_simps echo_env_loop_nan)

lemma frozen_env_run: "run_read_tests frozen_env 4096 4096 1 (Fin 0) = Some (Inr [0])"
  by (simp add: run_read_tests_def run_tests_def frozen_env_simps frozen_env_loop)

text \<open>
  Rounding at work: exact values, ties to the even significand, and an overflow.
\<close>

lemma bit_length_small: "bit_length 4 = 3" "bit_length 10 = 4"
  using bit_length_eqI [of 2 4] bit_length_eqI [of 3 10] by simp_all

lemmas round_double_defs = round_double_def ilog2_def pow2_def nearest_even_def
  bit_length_small bit_length_1 Let_def

lemma rd_a: "round_double (3602879701896397 / 18014398509481984)
    = Fin (3602879701896397 / 18014398509481984)"
  by (simp add: round_double_defs)

lemma rd_e2: "round_double (12610078956637389 / 18014398509481984)
    = Fin (3152519739159347 / 4503599627370496)"
  by (simp add: round_double_defs)

lemma rd_t2: "round_double (16212958658533785 / 18014398509481984)
    = Fin (2026619832316723 / 2251799813685248)"
  by (simp add: round_double_defs)

lemma rd_e3: "round_double (900719925474099 / 9007199254740992)
    = Fin (900719925474099 / 9007199254740992)"
  by (simp add: round_double_defs)

lemma rd_t3: "round_double (9007199254740991 / 9007199254740992)
    = Fin (9007199254740991 / 9007199254740992)"
  by (simp add: round_double_defs)

lemma round_double_overflow: "fadd (Fin (2 ^ 1023)) (Fin (2 ^ 1023)) = PosInf"
proof -
  have "bit_length (2 ^ 1024) = Suc 1024" by (rule bit_length_eqI) simp_all
  then have "ilog2 (2 ^ 1024) = 1024" by (simp add: ilog2_def)
  then have "round_double (2 ^ 1024) = PosInf"
    by (simp add: round_double_def pow2_def nearest_even_def Let_def)
  then show ?thesis by simp
qed

text \<open>
  The total is a sum of doubles. One pass is asked for and at least the double nearest
  to 0.9 seconds; the passes take 0.2 and then 0.9 - 0.2 seconds, exactly 0.9 seconds
  together. The difference rounds to the double nearest to 0.7, the sum to the double
  just below 0.9, and the loop runs a third pass.
\<close>

lemma drift_env_simps:
  "setup_ok drift_env" "seek_ok drift_env i" "transfer drift_env n c = (True, c)"
  "perf_counter drift_env n = Fin (if n = 0 then 0
        else if n \<le> 2 then 3602879701896397 / 18014398509481984
        else if n \<le> 4 then 8106479329266893 / 9007199254740992
        else 1)"
  by (simp_all add: drift_env_def)

lemma drift_env_ok: "\<not> transfer_failed drift_env n 512"
  by (simp add: transfer_failed_def drift_env_simps)

lemma drift_env_pass: "transfer_all d drift_env 512 1024 sent = Some (None, sent @ [512, 512])"
  using transfer_all_whole_blocks [of 512 sent drift_env d "Suc (Suc 0)"] drift_env_ok
  by simp

lemma rounding_third_pass:
  "pass_loop d drift_env 1024 512 1 (Fin (8106479329266893 / 9007199254740992)) initial_state
     = Some (None, \<lparr>per_pass = [17592186044416 / 3602879701896397,
            4398046511104 / 3152519739159347, 8796093022208 / 900719925474099],
          total_elapsed = Fin (9007199254740991 / 9007199254740992), passes_done = 3,
          ticks = 6, issued = [512, 512, 512, 512, 512, 512]\<rparr>)"
  apply (subst pass_loop.simps)
  apply (simp add: initial_state_def drift_env_simps drift_env_pass Let_def throughput_mb_s_def
      fsub_def rd_a)
  apply (subst pass_loop.simps)
  apply (simp add: drift_env_simps drift_env_pass Let_def throughput_mb_s_def
      fsub_def rd_a rd_e2 rd_t2)
  apply (subst pass_loop.simps)
  apply (simp add: drift_env_simps drift_env_pass Let_def throughput_mb_s_def
      fsub_def rd_e3 rd_t3)
  apply (subst pass_loop.simps)
  apply simp
  done

text \<open>
  Claim C2, as the code has it. When \<^verbatim>\<open>run_write_tests\<close> or \<^verbatim>\<open>run_read_tests\<close> returns a
  series, the loop has left with at least \<open>passes\<close> passes done and with
  \<^verbatim>\<open>total_elapsed < min_seconds\<close> false, which is \<^verbatim>\<open>total_elapsed >= min_seconds\<close>
  unless one of the two is not a number; the series has one sample per pass done;
  the total is the sum of the times of the passes, each sum and difference rounded to
  a double; and each pass \<open>k\<close> was started because fewer than \<open>passes\<close> passes were
  done or the total of the passes before it was below \<open>min_seconds\<close>.
\<close>

theorem pass_loop_exit:
  assumes "run_write_tests env file_size block_size passes min_seconds = Some (Inr series)
         \<or> run_read_tests env file_size block_size passes min_seconds = Some (Inr series)"
  shows "\<exists>d s. pass_loop d env file_size block_size passes min_seconds initial_state
               = Some (None, s)
       \<and> series = per_pass s
       \<and> passes \<le> passes_done s
       \<and> \<not> flt (total_elapsed s) min_seconds
       \<and> (min_seconds = NaN \<or> total_elapsed s = NaN \<or> fle min_seconds (total_elapsed s))
       \<and> int (length series) = passes_done s
       \<and> total_elapsed s = elapsed_total env (length series)
       \<and> (\<forall>k<length series.
             int k < passes \<or> flt (elapsed_total env k) min_seconds)"
proof -
  from assms obtain d
    where "run_tests d env file_size block_size passes min_seconds = Some (Inr series)"
    using run_tests_direction by blast
  then obtain s
    where run: "pass_loop d env file_size block_size passes min_seconds initial_state
                  = Some (None, s)"
      and series: "series = per_pass s"
    using run_tests_Inr by blast
  have "ticks initial_state = 2 * length (per_pass initial_state)"
    by (simp add: initial_state_def)
  from pass_loop_inv [OF run loop_inv_initial this]
  have inv: "loop_inv env file_size passes min_seconds s"
    and fin: "passes \<le> passes_done s" "\<not> flt (total_elapsed s) min_seconds"
    by simp_all
  from fin(2) have ge: "min_seconds = NaN \<or> total_elapsed s = NaN
      \<or> fle min_seconds (total_elapsed s)"
    by (rule not_flt_cases)
  from inv series have "int (length series) = passes_done s"
    "total_elapsed s = elapsed_total env (length series)"
    "\<forall>k<length series. int k < passes \<or> flt (elapsed_total env k) min_seconds"
    by (simp_all add: loop_inv_def)
  with run series fin ge show ?thesis by blast
qed

theorem pass_loop_exit_witness:
  "run_write_tests echo_env 1024 512 2 (Fin 0) = Some (Inr [1 / 1024, 1 / 1024])
   \<and> (\<exists>d s. pass_loop d echo_env 1024 512 2 (Fin 0) initial_state = Some (None, s)
       \<and> [1 / 1024, 1 / 1024] = per_pass s
       \<and> 2 \<le> passes_done s
       \<and> \<not> flt (total_elapsed s) (Fin 0)
       \<and> (Fin 0 = NaN \<or> total_elapsed s = NaN \<or> fle (Fin 0) (total_elapsed s))
       \<and> int (length [1 / 1024, 1 / 1024 :: real]) = passes_done s
       \<and> total_elapsed s = elapsed_total echo_env (length [1 / 1024, 1 / 1024 :: real])
       \<and> (\<forall>k<length [1 / 1024, 1 / 1024 :: real].
             int k < 2 \<or> flt (elapsed_total echo_env k) (Fin 0)))"
proof -
  note h = echo_env_run
  from h pass_loop_exit [OF disjI1 [OF h]] show ?thesis by (rule conjI)
qed

text \<open>
  Claim C2, as stated, has the total at least \<open>min_seconds\<close> on return. With
  \<^verbatim>\<open>--min-seconds nan\<close> and one pass asked for, the loop returns after one pass of one
  second, and \<^verbatim>\<open>total_elapsed >= min_seconds\<close> is false.
\<close>

theorem pass_loop_exit_counterexample:
  "run_write_tests echo_env 1024 512 1 NaN = Some (Inr [1 / 1024])
   \<and> pass_loop Write echo_env 1024 512 1 NaN initial_state
       = Some (None, \<lparr>per_pass = [1 / 1024], total_elapsed = Fin 1, passes_done = 1,
            ticks = 2, issued = [512, 512]\<rparr>)
   \<and> \<not> fle NaN (Fin 1)"
  by (simp add: echo_env_run_nan echo_env_loop_nan)

text \<open>
  Claim C6. Every sample of a returned series is the file size in MiB divided by the
  time of its pass when that time is positive, and 0 otherwise; it is not negative
  when the file size is not.
\<close>

theorem pass_samples:
  assumes "run_write_tests env file_size block_size passes min_seconds = Some (Inr series)
         \<or> run_read_tests env file_size block_size passes min_seconds = Some (Inr series)"
    and "i < length series"
  shows "series ! i = (if flt (Fin 0) (pass_elapsed env i)
                       then (case pass_elapsed env i of
                               Fin s \<Rightarrow> (real_of_int file_size / (1024 * 1024)) / s
                             | _ \<Rightarrow> 0)
                       else 0)
       \<and> (0 \<le> file_size \<longrightarrow> 0 \<le> series ! i)"
proof -
  from assms(1) obtain d
    where "run_tests d env file_size block_size passes min_seconds = Some (Inr series)"
    using run_tests_direction by blast
  then obtain s
    where run: "pass_loop d env file_size block_size passes min_seconds initial_state
                  = Some (None, s)"
      and series: "series = per_pass s"
    using run_tests_Inr by blast
  have "ticks initial_state = 2 * length (per_pass initial_state)"
    by (simp add: initial_state_def)
  from pass_loop_inv [OF run loop_inv_initial this]
  have "loop_inv env file_size passes min_seconds s" by simp
  with series assms(2) have "series ! i = throughput_mb_s file_size (pass_elapsed env i)"
    by (simp add: loop_inv_def)
  then show ?thesis
    by (cases "pass_elapsed env i") (simp_all add: throughput_mb_s_def)
qed

theorem pass_samples_witness:
  "run_write_tests echo_env 1024 512 2 (Fin 0) = Some (Inr [1 / 1024, 1 / 1024])
   \<and> pass_elapsed echo_env 1 = Fin 1
   \<and> [1 / 1024, 1 / 1024 :: real] ! 1 = (1024 / (1024 * 1024)) / 1
   \<and> run_read_tests frozen_env 4096 4096 1 (Fin 0) = Some (Inr [0])
   \<and> pass_elapsed frozen_env 0 = Fin 0
   \<and> [0 :: real] ! 0 = 0"
  using echo_env_run frozen_env_run
    pass_samples [OF disjI1 [OF echo_env_run], of 1]
    pass_samples [OF disjI2 [OF frozen_env_run], of 0]
  by (simp add: pass_elapsed_def echo_env_simps frozen_env_simps fsub_def round_double_1
      round_double_0)






text \<open>
  The byte count reaches the device as a \<^verbatim>\<open>DWORD\<close>: a block of \<open>2 ^ 32\<close> bytes is
  a request for 0 bytes, and the count reported never equals the block size.
\<close>

lemma echo_env_large_block:
  "transfer_all d echo_env 4294967296 4294967296 []
     = Some (Some (OSError_transfer d 0 0), [4294967296])"
  by (subst transfer_all.simps) (simp add: transfer_failed_def echo_env_def)

lemma echo_env_large_run:
  "run_write_tests echo_env 4294967296 4294967296 1 (Fin 0)
     = Some (Inl (OSError_transfer Write 0 0))"
  by (simp add: run_write_tests_def run_tests_def echo_env_simps)
    (subst pass_loop.simps,
      simp add: initial_state_def echo_env_simps echo_env_large_block Let_def)

lemma whole_device_ok:
  assumes "0 < block_size" and "block_size < 2 ^ 32"
    and "\<forall>n. transfer env n (word_of_int block_size) = (True, word_of_int block_size)"
  shows "\<not> transfer_failed env n block_size"
proof -
  from assms(1,2) have "uint (word_of_int block_size :: 32 word) = block_size"
    by (simp add: uint_word_of_int take_bit_int_eq_self)
  with assms(3) show ?thesis by (simp add: transfer_failed_def)
qed

text \<open>
  Claim C10, as the code has it. With a positive block size below \<open>2 ^ 32\<close> dividing a
  file size that is not negative, and a device that completes every transfer of a
  block, a pass issues \<open>file_size div block_size\<close> transfers, each of \<open>block_size\<close>
  bytes, which add up to the file size.
\<close>

theorem full_pass_transfers:
  assumes "0 < block_size" and "block_size < 2 ^ 32"
    and "0 \<le> file_size" and "file_size mod block_size = 0"
    and "\<forall>n. transfer env n (word_of_int block_size) = (True, word_of_int block_size)"
  shows "\<exists>ios. transfer_all d env block_size file_size sent = Some (None, sent @ ios)
       \<and> (\<forall>x\<in>set ios. x = block_size)
       \<and> int (length ios) = file_size div block_size
       \<and> sum_list ios = file_size"
proof -
  define k where "k = nat (file_size div block_size)"
  from assms(1,3) have "0 \<le> file_size div block_size" by (simp add: pos_imp_zdiv_nonneg_iff)
  then have k: "int k = file_size div block_size" by (simp add: k_def)
  with assms(4) have fs: "file_size = int k * block_size" by (simp add: mod_eq_0_iff_dvd)
  have "transfer_all d env block_size (int k * block_size) sent
           = Some (None, sent @ replicate k block_size)"
    by (rule transfer_all_whole_blocks [OF assms(1)])
      (rule whole_device_ok [OF assms(1,2,5)])
  with fs k show ?thesis by (intro exI [of _ "replicate k block_size"]) (simp add: sum_list_replicate)
qed

theorem full_pass_transfers_witness:
  "(0::int) < 512 \<and> (512::int) < 2 ^ 32 \<and> (0::int) \<le> 1024 \<and> (1024::int) mod 512 = 0
   \<and> (\<forall>n. transfer echo_env n (word_of_int 512) = (True, word_of_int 512))
   \<and> (\<exists>ios. transfer_all Write echo_env 512 1024 [] = Some (None, [] @ ios)
       \<and> int (length ios) = 1024 div 512
       \<and> sum_list ios = 1024)"
proof -
  have ok: "\<forall>n. transfer echo_env n (word_of_int 512) = (True, word_of_int 512)"
    by (simp add: echo_env_def)
  from full_pass_transfers [of 512 1024 echo_env Write "[]", OF _ _ _ _ ok]
  have "\<exists>ios. transfer_all Write echo_env 512 1024 [] = Some (None, [] @ ios)
       \<and> int (length ios) = 1024 div 512 \<and> sum_list ios = 1024"
    by auto
  with ok show ?thesis by simp
qed

text \<open>
  Claim C10, as stated, holds of every positive block size. With a block of
  \<open>2 ^ 32\<close> bytes, which the sizing produces for \<^verbatim>\<open>--block-kb 4194304\<close>, the device that
  moves exactly what it is asked for is asked for 0 bytes, and the first transfer of
  the pass raises.
\<close>

theorem full_pass_transfers_counterexample:
  "(0::int) < 4294967296 \<and> (4294967296::int) mod 4294967296 = 0
   \<and> (\<forall>n c. transfer echo_env n c = (True, c))
   \<and> transfer_all Write echo_env 4294967296 4294967296 []
       = Some (Some (OSError_transfer Write 0 0), [4294967296])
   \<and> transfer_all Read echo_env 4294967296 4294967296 []
       = Some (Some (OSError_transfer Read 0 0), [4294967296])
   \<and> run_write_tests echo_env 4294967296 4294967296 1 (Fin 0)
       = Some (Inl (OSError_transfer Write 0 0))
   \<and> sizing 4294967296 True 10000000000 512 4194304
       = Inr \<lparr>plan_file_size = 4294967296, plan_block_size = 4294967296\<rparr>"
  by (simp add: echo_env_large_block echo_env_large_run echo_env_simps sizing_defs)

section \<open>Properties of the summary\<close>

lemma keep_smaller_min: "(\<lambda>item best :: real. if item < best then item else best) = min"
  by (intro ext) (simp add: min_def)

lemma keep_larger_max: "(\<lambda>item best :: real. if item > best then item else best) = max"
  by (intro ext) (simp add: max_def)

lemma py_min_Min: "values \<noteq> [] \<Longrightarrow> py_min values = Inr (Min (set values))"
  by (cases "values") (simp_all add: keep_smaller_min Min.set_eq_fold [symmetric])

lemma py_max_Max: "values \<noteq> [] \<Longrightarrow> py_max values = Inr (Max (set values))"
  by (cases "values") (simp_all add: keep_larger_max Max.set_eq_fold [symmetric])

text \<open>
  Claim C7. For a series that is not empty the summary gives the least sample, the
  greatest sample and the sum of the samples divided by their number; for the empty
  series \<^verbatim>\<open>min\<close> raises \<^verbatim>\<open>ValueError\<close> and nothing is reported. The mean is taken
  over the reals: the rounding of \<^verbatim>\<open>statistics.fmean\<close> is left out.
\<close>

theorem summarize_report:
  "(values \<noteq> [] \<longrightarrow>
      summarize values = Inr \<lparr>vmin = Min (set values),
        vavg = sum_list values / real (length values), vmax = Max (set values)\<rparr>)
   \<and> summarize [] = Inl ValueError"
  by (simp add: summarize_def bind_r_def py_min_Min py_max_Max fmean_def)

theorem summarize_report_witness:
  "summarize [2, 1, 3] = Inr \<lparr>vmin = 1, vavg = 2, vmax = 3\<rparr>
   \<and> summarize [] = Inl ValueError"
  using summarize_report [of "[2, 1, 3]"] by simp

end
